theory Spec2Isabelle
  imports Main "HOL-Library.Word"
begin

section \<open>AgroSense: the quota-aware allocator of \<^verbatim>\<open>src/AgroSense.cpp\<close>\<close>

text \<open>
  The node runs on a 32-bit FreeRTOS target (the \<^verbatim>\<open>freertos/...\<close> headers of the
  ESP32 Arduino core), so \<^verbatim>\<open>size_t\<close>, \<^verbatim>\<open>void*\<close> and \<^verbatim>\<open>TaskHandle_t\<close> are 32-bit
  values. Arithmetic on \<^verbatim>\<open>size_t\<close> wraps modulo \<open>2 ^ 32\<close>, which is what \<open>+\<close> and
  \<open>-\<close> on \<open>32 word\<close> do; \<open>\<le>\<close> on words is the unsigned comparison the C code
  performs after converting the \<^verbatim>\<open>int\<close> quota constant to \<^verbatim>\<open>size_t\<close>.
\<close>

type_synonym size_t = "32 word"
type_synonym pointer = "32 word"
type_synonym TaskHandle_t = "32 word"

definition NULL :: pointer where
  "NULL = 0"

subsection \<open>Config\<close>

definition SENSOR_TASK_QUOTA :: size_t where
  "SENSOR_TASK_QUOTA = 2048"

definition COMM_TASK_QUOTA :: size_t where
  "COMM_TASK_QUOTA = 2048"

subsection \<open>Observable effects\<close>

text \<open>
  Every call the allocator makes to one of its collaborators is recorded, in order:
  taking and giving \<^verbatim>\<open>memMutex\<close>, calling the heap provider (\<^verbatim>\<open>pvPortMalloc\<close>,
  \<^verbatim>\<open>vPortFree\<close>), and printing a line on \<^verbatim>\<open>Serial\<close>. A printed line is kept as the
  task tag that starts its format string and the three \<^verbatim>\<open>%d\<close> arguments (requested
  size, current usage, quota).
\<close>

datatype event =
    SemaphoreTake
  | SemaphoreGive
  | PortMalloc size_t
  | PortFree pointer
  | SerialPrintf string size_t size_t size_t

subsection \<open>Global state\<close>

text \<open>
  The globals of the file that the allocator reads or writes, the state \<open>'h\<close> of the
  heap provider (opaque to the allocator), and the record of effects.
\<close>

record 'h node =
  sensorTaskHandle :: TaskHandle_t
  commTaskHandle :: TaskHandle_t
  sensorMemUsage :: size_t
  commMemUsage :: size_t
  heap :: 'h
  effects :: "event list"

definition emit :: "event \<Rightarrow> 'h node \<Rightarrow> 'h node" where
  "emit e st = st\<lparr>effects := effects st @ [e]\<rparr>"

text \<open>
  The heap provider is external: \<^verbatim>\<open>pvPortMalloc\<close> and \<^verbatim>\<open>vPortFree\<close> are parameters,
  functions on the provider's own state. \<open>call_malloc\<close> and \<open>call_free\<close> are the call
  sites: they record the call and thread the provider's state.
\<close>

type_synonym 'h malloc_fn = "size_t \<Rightarrow> 'h \<Rightarrow> pointer \<times> 'h"
type_synonym 'h free_fn = "pointer \<Rightarrow> 'h \<Rightarrow> 'h"

definition call_malloc :: "'h malloc_fn \<Rightarrow> size_t \<Rightarrow> 'h node \<Rightarrow> pointer \<times> 'h node" where
  "call_malloc pvPortMalloc sz st =
     (case pvPortMalloc sz (heap st) of
        (p, h') \<Rightarrow> (p, emit (PortMalloc sz) (st\<lparr>heap := h'\<rparr>)))"

definition call_free :: "'h free_fn \<Rightarrow> pointer \<Rightarrow> 'h node \<Rightarrow> 'h node" where
  "call_free vPortFree p st = emit (PortFree p) (st\<lparr>heap := vPortFree p (heap st)\<rparr>)"

subsection \<open>Quota-aware malloc and free\<close>

text \<open>
  \<^verbatim>\<open>pvPortMallocWithQuota(size, taskHandle)\<close>: the mutex is taken, the branch for the
  handle is chosen (sensor first, then comm, otherwise nothing), the mutex is given and
  \<^verbatim>\<open>ptr\<close> is returned. In a quota branch the provider is called only when the wrapped
  sum \<^verbatim>\<open>usage + size\<close> is at most the quota, and the usage grows only when the
  provider returned a non-null pointer; the \<^verbatim>\<open>else\<close> of the quota test prints.
\<close>

definition pvPortMallocWithQuota ::
  "'h malloc_fn \<Rightarrow> size_t \<Rightarrow> TaskHandle_t \<Rightarrow> 'h node \<Rightarrow> pointer \<times> 'h node" where
  "pvPortMallocWithQuota pvPortMalloc sz taskHandle st0 =
     (let st1 = emit SemaphoreTake st0;
          (ptr, st2) =
            (if taskHandle = sensorTaskHandle st1 then
               (if sensorMemUsage st1 + sz \<le> SENSOR_TASK_QUOTA then
                  (case call_malloc pvPortMalloc sz st1 of
                     (p, st') \<Rightarrow>
                       (p, if p \<noteq> NULL
                           then st'\<lparr>sensorMemUsage := sensorMemUsage st' + sz\<rparr>
                           else st'))
                else
                  (NULL, emit (SerialPrintf ''[SensorTask]'' sz (sensorMemUsage st1)
                                 SENSOR_TASK_QUOTA) st1))
             else if taskHandle = commTaskHandle st1 then
               (if commMemUsage st1 + sz \<le> COMM_TASK_QUOTA then
                  (case call_malloc pvPortMalloc sz st1 of
                     (p, st') \<Rightarrow>
                       (p, if p \<noteq> NULL
                           then st'\<lparr>commMemUsage := commMemUsage st' + sz\<rparr>
                           else st'))
                else
                  (NULL, emit (SerialPrintf ''[CommTask]'' sz (commMemUsage st1)
                                 COMM_TASK_QUOTA) st1))
             else (NULL, st1))
      in (ptr, emit SemaphoreGive st2))"

text \<open>
  \<^verbatim>\<open>vPortFreeWithTracking(ptr, size, taskHandle)\<close>: a null pointer returns at once;
  otherwise the mutex is taken, the provider frees the pointer, the usage of the
  handle's branch shrinks by \<^verbatim>\<open>size\<close> (wrapping), and the mutex is given.
\<close>

definition vPortFreeWithTracking ::
  "'h free_fn \<Rightarrow> pointer \<Rightarrow> size_t \<Rightarrow> TaskHandle_t \<Rightarrow> 'h node \<Rightarrow> 'h node" where
  "vPortFreeWithTracking vPortFree ptr sz taskHandle st0 =
     (if ptr = NULL then st0
      else
        (let st1 = emit SemaphoreTake st0;
             st2 = call_free vPortFree ptr st1;
             st3 =
               (if taskHandle = sensorTaskHandle st2 then
                  st2\<lparr>sensorMemUsage := sensorMemUsage st2 - sz\<rparr>
                else if taskHandle = commTaskHandle st2 then
                  st2\<lparr>commMemUsage := commMemUsage st2 - sz\<rparr>
                else st2)
         in emit SemaphoreGive st3))"

subsection \<open>The ledger entry of a handle\<close>

text \<open>
  The usage counter and the quota that the two functions select for a handle, in the
  order of their branches. A handle that is neither task's has no entry.
\<close>

definition registered :: "TaskHandle_t \<Rightarrow> 'h node \<Rightarrow> bool" where
  "registered taskHandle st =
     (taskHandle = sensorTaskHandle st \<or> taskHandle = commTaskHandle st)"

definition used_of :: "TaskHandle_t \<Rightarrow> 'h node \<Rightarrow> size_t" where
  "used_of taskHandle st =
     (if taskHandle = sensorTaskHandle st then sensorMemUsage st
      else if taskHandle = commTaskHandle st then commMemUsage st
      else 0)"

definition quota_of :: "TaskHandle_t \<Rightarrow> 'h node \<Rightarrow> size_t" where
  "quota_of taskHandle st =
     (if taskHandle = sensorTaskHandle st then SENSOR_TASK_QUOTA
      else if taskHandle = commTaskHandle st then COMM_TASK_QUOTA
      else 0)"

text \<open>The lines printed on \<^verbatim>\<open>Serial\<close> among recorded effects.\<close>

fun is_print :: "event \<Rightarrow> bool" where
  "is_print (SerialPrintf tag a b c) = True"
| "is_print e = False"

definition printed_lines :: "event list \<Rightarrow> event list" where
  "printed_lines es = filter is_print es"

subsection \<open>Sequences of calls and the caller's allocation records\<close>

text \<open>
  The workload tasks call the allocator in one pattern: allocate, and when the pointer
  is not null, later free that pointer with the same size and handle. The allocator
  keeps no record of what is outstanding; the caller does (pointer, size, handle). A
  \<open>call\<close> is one invocation; \<open>perform\<close> executes it on the node and maintains the
  caller-held records: a successful allocation adds its record, a release is within
  the caller contract only when it names a held record, which it then gives up.
  \<open>run\<close> executes a sequence and is \<open>None\<close> as soon as a release breaks the
  contract.
\<close>

datatype call =
    Allocate size_t TaskHandle_t
  | Release pointer size_t TaskHandle_t

type_synonym allocation = "pointer \<times> size_t \<times> TaskHandle_t"

fun perform ::
  "'h malloc_fn \<Rightarrow> 'h free_fn \<Rightarrow> call \<Rightarrow> 'h node \<times> allocation list
     \<Rightarrow> ('h node \<times> allocation list) option" where
  "perform M F (Allocate sz h) (st, held) =
     (case pvPortMallocWithQuota M sz h st of
        (p, st') \<Rightarrow> Some (st', if p \<noteq> NULL then (p, sz, h) # held else held))"
| "perform M F (Release p sz h) (st, held) =
     (if (p, sz, h) \<in> set held
      then Some (vPortFreeWithTracking F p sz h st, remove1 (p, sz, h) held)
      else None)"

fun run ::
  "'h malloc_fn \<Rightarrow> 'h free_fn \<Rightarrow> call list \<Rightarrow> 'h node \<times> allocation list
     \<Rightarrow> ('h node \<times> allocation list) option" where
  "run M F [] c = Some c"
| "run M F (x # xs) c =
     (case perform M F x c of None \<Rightarrow> None | Some c' \<Rightarrow> run M F xs c')"

text \<open>
  The bytes the caller holds, as a natural number, and the provider's side of the
  contract along a run: blocks handed out and not yet freed are disjoint parts of one
  32-bit address space, so after every call the held bytes are fewer than \<open>2 ^ 32\<close>.
\<close>

fun live_bytes :: "allocation list \<Rightarrow> nat" where
  "live_bytes [] = 0"
| "live_bytes ((p, sz, h) # held) = unat sz + live_bytes held"

fun within_address_space ::
  "'h malloc_fn \<Rightarrow> 'h free_fn \<Rightarrow> call list \<Rightarrow> 'h node \<times> allocation list \<Rightarrow> bool" where
  "within_address_space M F [] c = True"
| "within_address_space M F (x # xs) c =
     (case perform M F x c of
        None \<Rightarrow> True
      | Some c' \<Rightarrow> live_bytes (snd c') < 2 ^ 32 \<and> within_address_space M F xs c')"

text \<open>
  The bytes charged to a set of handles by the held records, in \<^verbatim>\<open>size_t\<close>
  arithmetic and as a natural number.
\<close>

fun charged :: "(TaskHandle_t \<Rightarrow> bool) \<Rightarrow> allocation list \<Rightarrow> size_t" where
  "charged P [] = 0"
| "charged P ((p, sz, h) # held) = (if P h then sz + charged P held else charged P held)"

fun charged_bytes :: "(TaskHandle_t \<Rightarrow> bool) \<Rightarrow> allocation list \<Rightarrow> nat" where
  "charged_bytes P [] = 0"
| "charged_bytes P ((p, sz, h) # held) =
     (if P h then unat sz + charged_bytes P held else charged_bytes P held)"

text \<open>
  \<open>consistent\<close>: each usage counter is the sum, in \<^verbatim>\<open>size_t\<close> arithmetic, of the sizes
  of the held records that the branch order charges to it, and no held record has a
  null pointer. \<open>within_quota\<close>: \<open>0 \<le> used \<le> quota\<close> for both units.
\<close>

definition consistent :: "'h node \<times> allocation list \<Rightarrow> bool" where
  "consistent c =
     (case c of (st, held) \<Rightarrow>
        sensorMemUsage st = charged (\<lambda>h. h = sensorTaskHandle st) held
      \<and> commMemUsage st =
          charged (\<lambda>h. h \<noteq> sensorTaskHandle st \<and> h = commTaskHandle st) held
      \<and> NULL \<notin> fst ` set held)"

definition within_quota :: "'h node \<Rightarrow> bool" where
  "within_quota st =
     (0 \<le> sensorMemUsage st \<and> sensorMemUsage st \<le> SENSOR_TASK_QUOTA
      \<and> 0 \<le> commMemUsage st \<and> commMemUsage st \<le> COMM_TASK_QUOTA)"

subsection \<open>Example providers, nodes and call sequences\<close>

text \<open>
  A provider that counts the blocks it has handed out and numbers them, refusing
  requests above 64 KiB; a provider with no memory left; the node after
  \<^verbatim>\<open>setup()\<close> with two distinct task handles and both usages zero.
\<close>

definition counting_malloc :: "nat malloc_fn" where
  "counting_malloc sz n = (if sz \<le> 65536 then (of_nat (Suc n), Suc n) else (NULL, n))"

definition counting_free :: "nat free_fn" where
  "counting_free p n = n"

definition exhausted_malloc :: "nat malloc_fn" where
  "exhausted_malloc sz n = (NULL, n)"

definition started_node :: "nat node" where
  "started_node =
     \<lparr>sensorTaskHandle = 1, commTaskHandle = 2, sensorMemUsage = 0, commMemUsage = 0,
      heap = 0, effects = []\<rparr>"

definition demo_calls :: "call list" where
  "demo_calls =
     [Allocate 1280 1, Allocate 1024 1, Allocate 600 2, Release 1 1280 1,
      Allocate 2000 1, Release 2 600 2, Release 3 2000 1]"

section \<open>Properties of a single call\<close>

lemmas alloc_defs = pvPortMallocWithQuota_def call_malloc_def emit_def Let_def
lemmas free_defs = vPortFreeWithTracking_def call_free_def emit_def Let_def

lemma malloc_result:
  "fst (pvPortMallocWithQuota M sz h st) =
     (if h = sensorTaskHandle st then
        (if sensorMemUsage st + sz \<le> SENSOR_TASK_QUOTA then fst (M sz (heap st)) else NULL)
      else if h = commTaskHandle st then
        (if commMemUsage st + sz \<le> COMM_TASK_QUOTA then fst (M sz (heap st)) else NULL)
      else NULL)"
  by (auto simp: alloc_defs split: prod.splits)

lemma malloc_sensorMemUsage:
  "sensorMemUsage (snd (pvPortMallocWithQuota M sz h st)) =
     (if h = sensorTaskHandle st \<and> sensorMemUsage st + sz \<le> SENSOR_TASK_QUOTA
         \<and> fst (M sz (heap st)) \<noteq> NULL
      then sensorMemUsage st + sz else sensorMemUsage st)"
  by (auto simp: alloc_defs split: prod.splits)

lemma malloc_commMemUsage:
  "commMemUsage (snd (pvPortMallocWithQuota M sz h st)) =
     (if h \<noteq> sensorTaskHandle st \<and> h = commTaskHandle st
         \<and> commMemUsage st + sz \<le> COMM_TASK_QUOTA \<and> fst (M sz (heap st)) \<noteq> NULL
      then commMemUsage st + sz else commMemUsage st)"
  by (auto simp: alloc_defs split: prod.splits)

lemma malloc_handles:
  "sensorTaskHandle (snd (pvPortMallocWithQuota M sz h st)) = sensorTaskHandle st"
  "commTaskHandle (snd (pvPortMallocWithQuota M sz h st)) = commTaskHandle st"
  by (auto simp: alloc_defs split: prod.splits)

lemma malloc_effects:
  "effects (snd (pvPortMallocWithQuota M sz h st)) =
     effects st @ [SemaphoreTake] @
       (if h = sensorTaskHandle st then
          (if sensorMemUsage st + sz \<le> SENSOR_TASK_QUOTA then [PortMalloc sz]
           else [SerialPrintf ''[SensorTask]'' sz (sensorMemUsage st) SENSOR_TASK_QUOTA])
        else if h = commTaskHandle st then
          (if commMemUsage st + sz \<le> COMM_TASK_QUOTA then [PortMalloc sz]
           else [SerialPrintf ''[CommTask]'' sz (commMemUsage st) COMM_TASK_QUOTA])
        else []) @ [SemaphoreGive]"
  by (auto simp: alloc_defs split: prod.splits)

lemma malloc_heap:
  "heap (snd (pvPortMallocWithQuota M sz h st)) =
     (if (h = sensorTaskHandle st \<and> sensorMemUsage st + sz \<le> SENSOR_TASK_QUOTA)
         \<or> (h \<noteq> sensorTaskHandle st \<and> h = commTaskHandle st
               \<and> commMemUsage st + sz \<le> COMM_TASK_QUOTA)
      then snd (M sz (heap st)) else heap st)"
  by (auto simp: alloc_defs split: prod.splits)

lemma free_sensorMemUsage:
  "sensorMemUsage (vPortFreeWithTracking F p sz h st) =
     (if p \<noteq> NULL \<and> h = sensorTaskHandle st then sensorMemUsage st - sz
      else sensorMemUsage st)"
  by (simp add: free_defs)

lemma free_commMemUsage:
  "commMemUsage (vPortFreeWithTracking F p sz h st) =
     (if p \<noteq> NULL \<and> h \<noteq> sensorTaskHandle st \<and> h = commTaskHandle st
      then commMemUsage st - sz else commMemUsage st)"
  by (simp add: free_defs)

lemma free_handles:
  "sensorTaskHandle (vPortFreeWithTracking F p sz h st) = sensorTaskHandle st"
  "commTaskHandle (vPortFreeWithTracking F p sz h st) = commTaskHandle st"
  by (simp_all add: free_defs)

lemma free_effects:
  "effects (vPortFreeWithTracking F p sz h st) =
     (if p = NULL then effects st
      else effects st @ [SemaphoreTake, PortFree p, SemaphoreGive])"
  by (simp add: free_defs)

lemma free_heap:
  "heap (vPortFreeWithTracking F p sz h st) =
     (if p = NULL then heap st else F p (heap st))"
  by (simp add: free_defs)

lemmas malloc_usage = malloc_sensorMemUsage malloc_commMemUsage malloc_handles
lemmas free_usage = free_sensorMemUsage free_commMemUsage free_handles
lemmas entry_defs = registered_def used_of_def quota_of_def

text \<open>
  C1. Rejection correctness of \<open>pvPortMallocWithQuota\<close>. As stated (success exactly
  when \<open>U + S \<le> Q\<close>) the claim fails: the quota test can pass and the provider
  still return no memory, and then the call fails.
\<close>

theorem quota_fits_but_allocation_fails:
  "\<not> (fst (pvPortMallocWithQuota exhausted_malloc 100 1 started_node) \<noteq> NULL \<longleftrightarrow>
        unat (used_of 1 started_node) + unat (100 :: size_t) \<le> unat (quota_of 1 started_node))"
  by (simp add: malloc_result entry_defs started_node_def exhausted_malloc_def
      SENSOR_TASK_QUOTA_def NULL_def)

text \<open>
  C1, amended. For a registered handle with usage \<open>U\<close> and quota \<open>Q\<close>, and a provider
  that hands out no block whose size added to \<open>U\<close> leaves the range of \<^verbatim>\<open>size_t\<close>,
  the call succeeds exactly when \<open>U + S \<le> Q\<close> and the provider returns memory; on
  success the usage becomes \<open>U + S\<close>, and on failure (\<open>NULL\<close>) it is unchanged.
\<close>

theorem allocate_succeeds_iff_within_quota_and_provided:
  assumes "registered h st"
    and "fst (M sz (heap st)) \<noteq> NULL \<longrightarrow> unat (used_of h st) + unat sz < 2 ^ 32"
  shows "(fst (pvPortMallocWithQuota M sz h st) \<noteq> NULL \<longleftrightarrow>
            unat (used_of h st) + unat sz \<le> unat (quota_of h st)
            \<and> fst (M sz (heap st)) \<noteq> NULL)
       \<and> (fst (pvPortMallocWithQuota M sz h st) \<noteq> NULL \<longrightarrow>
            used_of h (snd (pvPortMallocWithQuota M sz h st)) = used_of h st + sz)
       \<and> (fst (pvPortMallocWithQuota M sz h st) = NULL \<longrightarrow>
            used_of h (snd (pvPortMallocWithQuota M sz h st)) = used_of h st)"
proof -
  have fits: "used_of h st + sz \<le> quota_of h st \<longleftrightarrow>
              unat (used_of h st) + unat sz \<le> unat (quota_of h st)"
    if "unat (used_of h st) + unat sz < 2 ^ 32"
  proof -
    from that have "unat (used_of h st + sz) = unat (used_of h st) + unat sz"
      using unat_add_lem [of "used_of h st" sz] by simp
    then show ?thesis by (simp add: word_le_nat_alt)
  qed
  have test: "fst (pvPortMallocWithQuota M sz h st) =
                (if used_of h st + sz \<le> quota_of h st then fst (M sz (heap st)) else NULL)"
    using assms(1) by (auto simp: malloc_result entry_defs)
  have upd: "used_of h (snd (pvPortMallocWithQuota M sz h st)) =
               (if used_of h st + sz \<le> quota_of h st \<and> fst (M sz (heap st)) \<noteq> NULL
                then used_of h st + sz else used_of h st)"
    using assms(1) by (auto simp: malloc_usage entry_defs)
  show ?thesis
  proof (cases "fst (M sz (heap st)) \<noteq> NULL")
    case True
    with assms(2) have "unat (used_of h st) + unat sz < 2 ^ 32" by simp
    from fits [OF this] True show ?thesis by (simp add: test upd)
  next
    case False
    then show ?thesis by (simp add: test upd)
  qed
qed

theorem allocate_succeeds_iff_witness:
  "registered 1 started_node
   \<and> unat (used_of 1 started_node) + unat (1280 :: size_t) < 2 ^ 32
   \<and> fst (pvPortMallocWithQuota counting_malloc 1280 1 started_node) \<noteq> NULL
   \<and> used_of 1 (snd (pvPortMallocWithQuota counting_malloc 1280 1 started_node)) = 1280"
proof -
  have r: "registered 1 started_node"
    by (simp add: registered_def started_node_def)
  have u: "used_of 1 started_node = 0"
    by (simp add: used_of_def started_node_def)
  have q: "quota_of 1 started_node = 2048"
    by (simp add: quota_of_def started_node_def SENSOR_TASK_QUOTA_def)
  have m: "fst (counting_malloc 1280 (heap started_node)) \<noteq> NULL"
    by (simp add: counting_malloc_def started_node_def NULL_def)
  have n: "fst (counting_malloc 1280 (heap started_node)) \<noteq> NULL \<longrightarrow>
           unat (used_of 1 started_node) + unat (1280 :: size_t) < 2 ^ 32"
    by (simp add: u)
  from allocate_succeeds_iff_within_quota_and_provided
         [of 1 started_node counting_malloc 1280, OF r n] m
  show ?thesis by (simp add: r u q)
qed

section \<open>Isolation, failures and the guard of the release\<close>

text \<open>
  C5. Isolation. With the two task handles distinct, a call of either function that
  names the sensor task leaves \<open>commMemUsage\<close> as it was, and a call that names the
  comm task leaves \<open>sensorMemUsage\<close> as it was.
\<close>

theorem other_unit_usage_unchanged:
  assumes "sensorTaskHandle st \<noteq> commTaskHandle st"
  shows "commMemUsage (snd (pvPortMallocWithQuota M sz (sensorTaskHandle st) st))
           = commMemUsage st
       \<and> commMemUsage (vPortFreeWithTracking F p sz (sensorTaskHandle st) st)
           = commMemUsage st
       \<and> sensorMemUsage (snd (pvPortMallocWithQuota M sz (commTaskHandle st) st))
           = sensorMemUsage st
       \<and> sensorMemUsage (vPortFreeWithTracking F p sz (commTaskHandle st) st)
           = sensorMemUsage st"
  using assms by (simp add: malloc_usage free_usage)

theorem other_unit_usage_unchanged_witness:
  "sensorTaskHandle started_node \<noteq> commTaskHandle started_node
   \<and> commMemUsage (snd (pvPortMallocWithQuota counting_malloc 1280 1 started_node)) = 0
   \<and> sensorMemUsage (vPortFreeWithTracking counting_free 7 600 2 started_node) = 0"
proof -
  have d: "sensorTaskHandle started_node \<noteq> commTaskHandle started_node"
    by (simp add: started_node_def)
  have s: "sensorTaskHandle started_node = 1" and c: "commTaskHandle started_node = 2"
    and z: "commMemUsage started_node = 0" "sensorMemUsage started_node = 0"
    by (simp_all add: started_node_def)
  from other_unit_usage_unchanged
         [of started_node counting_malloc 1280 counting_free 7, OF d]
       other_unit_usage_unchanged
         [of started_node counting_malloc 600 counting_free 7, OF d]
  show ?thesis by (simp add: s c z)
qed

text \<open>
  C6. Failure of the provider. As stated the claim fails on its last part: when the
  quota test passes and the provider returns no memory, nothing is printed.
\<close>

theorem provider_failure_prints_nothing:
  "\<not> (sensorMemUsage started_node + 100 \<le> SENSOR_TASK_QUOTA
        \<and> fst (exhausted_malloc 100 (heap started_node)) = NULL
      \<longrightarrow> fst (pvPortMallocWithQuota exhausted_malloc 100 1 started_node) = NULL
        \<and> sensorMemUsage (snd (pvPortMallocWithQuota exhausted_malloc 100 1 started_node))
            = sensorMemUsage started_node
        \<and> printed_lines
              (effects (snd (pvPortMallocWithQuota exhausted_malloc 100 1 started_node)))
            \<noteq> printed_lines (effects started_node))"
  by (simp add: malloc_result malloc_usage malloc_effects printed_lines_def
      started_node_def exhausted_malloc_def SENSOR_TASK_QUOTA_def)

text \<open>
  C6, amended. For a registered handle, when the quota test passes and the provider
  returns no memory, the call returns \<open>NULL\<close>, both usage counters are unchanged, and
  the only effects are taking the mutex, the provider call and giving the mutex: no
  line is printed.
\<close>

theorem provider_failure_keeps_usage_and_is_silent:
  assumes "registered h st"
    and "used_of h st + sz \<le> quota_of h st"
    and "fst (M sz (heap st)) = NULL"
  shows "fst (pvPortMallocWithQuota M sz h st) = NULL
       \<and> sensorMemUsage (snd (pvPortMallocWithQuota M sz h st)) = sensorMemUsage st
       \<and> commMemUsage (snd (pvPortMallocWithQuota M sz h st)) = commMemUsage st
       \<and> effects (snd (pvPortMallocWithQuota M sz h st))
           = effects st @ [SemaphoreTake, PortMalloc sz, SemaphoreGive]
       \<and> printed_lines (effects (snd (pvPortMallocWithQuota M sz h st)))
           = printed_lines (effects st)"
proof (cases "h = sensorTaskHandle st")
  case True
  with assms(2,3) show ?thesis
    by (simp add: malloc_result malloc_usage malloc_effects entry_defs printed_lines_def)
next
  case False
  with assms(1) have "h = commTaskHandle st"
    by (simp add: registered_def)
  with False assms(2,3) show ?thesis
    by (simp add: malloc_result malloc_usage malloc_effects entry_defs printed_lines_def)
qed

theorem provider_failure_witness:
  "registered 2 started_node
   \<and> used_of 2 started_node + 600 \<le> quota_of 2 started_node
   \<and> fst (exhausted_malloc 600 (heap started_node)) = NULL
   \<and> fst (pvPortMallocWithQuota exhausted_malloc 600 2 started_node) = NULL
   \<and> commMemUsage (snd (pvPortMallocWithQuota exhausted_malloc 600 2 started_node)) = 0
   \<and> effects (snd (pvPortMallocWithQuota exhausted_malloc 600 2 started_node))
       = [SemaphoreTake, PortMalloc 600, SemaphoreGive]
   \<and> printed_lines
         (effects (snd (pvPortMallocWithQuota exhausted_malloc 600 2 started_node))) = []"
proof -
  have r: "registered 2 started_node"
    by (simp add: registered_def started_node_def)
  have q: "used_of 2 started_node + 600 \<le> quota_of 2 started_node"
    by (simp add: used_of_def quota_of_def started_node_def COMM_TASK_QUOTA_def)
  have m: "fst (exhausted_malloc 600 (heap started_node)) = NULL"
    by (simp add: exhausted_malloc_def)
  have z: "commMemUsage started_node = 0" "effects started_node = []"
    by (simp_all add: started_node_def)
  from provider_failure_keeps_usage_and_is_silent
         [of 2 started_node 600 exhausted_malloc, OF r q m]
  show ?thesis by (simp add: r q m z printed_lines_def)
qed

text \<open>
  C7. A release with a null pointer is a no-op: the node is returned as it is, so the
  mutex is not taken, the provider is not called and no usage counter changes.
\<close>

theorem release_of_null_is_noop:
  "vPortFreeWithTracking F NULL sz h st = st"
  by (simp add: vPortFreeWithTracking_def)

text \<open>
  C9. A handle that is neither task's. An allocation returns \<open>NULL\<close> and only takes
  and gives the mutex: the provider is not called, nothing is printed and both usage
  counters stay. A release of a non-null pointer has the provider free it and changes
  neither usage counter.
\<close>

theorem unregistered_handle_is_not_accounted:
  assumes "\<not> registered h st"
  shows "pvPortMallocWithQuota M sz h st
           = (NULL, st\<lparr>effects := effects st @ [SemaphoreTake, SemaphoreGive]\<rparr>)
       \<and> (p \<noteq> NULL \<longrightarrow>
            vPortFreeWithTracking F p sz h st
              = st\<lparr>heap := F p (heap st),
                   effects := effects st @ [SemaphoreTake, PortFree p, SemaphoreGive]\<rparr>)"
  using assms by (simp add: alloc_defs free_defs registered_def)

theorem unregistered_handle_witness:
  "\<not> registered 9 started_node
   \<and> pvPortMallocWithQuota counting_malloc 100 9 started_node
       = (NULL, started_node\<lparr>effects := [SemaphoreTake, SemaphoreGive]\<rparr>)
   \<and> vPortFreeWithTracking counting_free 5 100 9 started_node
       = started_node\<lparr>effects := [SemaphoreTake, PortFree 5, SemaphoreGive]\<rparr>"
proof -
  have r: "\<not> registered 9 started_node"
    by (simp add: registered_def started_node_def)
  have e: "effects started_node = []"
    and f: "started_node\<lparr>heap := counting_free 5 (heap started_node)\<rparr> = started_node"
    by (simp_all add: started_node_def counting_free_def)
  have n: "(5 :: pointer) \<noteq> NULL"
    by (simp add: NULL_def)
  from unregistered_handle_is_not_accounted
         [of 9 started_node counting_malloc 100 5 counting_free, OF r] n
  show ?thesis by (simp add: r e f)
qed

text \<open>
  C10. No clamping in the release. For a registered handle, a non-null pointer and a
  size strictly greater than the usage \<open>U\<close>, the new usage is \<open>U - size\<close> in
  \<^verbatim>\<open>size_t\<close> arithmetic, that is \<open>U + 2 ^ 32 - size\<close>, and it is not 0.
\<close>

theorem release_wraps_below_zero:
  assumes "registered h st"
    and "p \<noteq> NULL"
    and "used_of h st < sz"
  shows "used_of h (vPortFreeWithTracking F p sz h st) = used_of h st - sz
       \<and> unat (used_of h (vPortFreeWithTracking F p sz h st))
           = unat (used_of h st) + 2 ^ 32 - unat sz
       \<and> used_of h (vPortFreeWithTracking F p sz h st) \<noteq> 0"
proof -
  have upd: "used_of h (vPortFreeWithTracking F p sz h st) = used_of h st - sz"
    using assms(1,2) by (auto simp: free_usage entry_defs)
  from assms(3) have less: "unat (used_of h st) < unat sz"
    by (simp add: word_less_nat_alt)
  then have val: "unat (used_of h st - sz) = unat (used_of h st) + 2 ^ 32 - unat sz"
    by (simp add: unat_sub_if_size word_size)
  from assms(3) have "used_of h st - sz \<noteq> 0"
    by auto
  with upd val show ?thesis by simp
qed

theorem release_wraps_witness:
  "registered 1 started_node \<and> (3 :: pointer) \<noteq> NULL \<and> used_of 1 started_node < 16
   \<and> sensorMemUsage (vPortFreeWithTracking counting_free 3 16 1 started_node)
       = 4294967280"
proof -
  have r: "registered 1 started_node"
    by (simp add: registered_def started_node_def)
  have n: "(3 :: pointer) \<noteq> NULL"
    by (simp add: NULL_def)
  have u: "used_of 1 started_node = 0"
    by (simp add: used_of_def started_node_def)
  have l: "used_of 1 started_node < 16"
    by (simp add: u)
  have s: "used_of 1 (vPortFreeWithTracking counting_free 3 16 1 started_node)
             = sensorMemUsage (vPortFreeWithTracking counting_free 3 16 1 started_node)"
    by (simp add: used_of_def free_handles started_node_def)
  from release_wraps_below_zero [of 1 started_node 3 16 counting_free, OF r n l]
  show ?thesis by (simp add: r n u s)
qed

section \<open>The worked scenario\<close>

text \<open>
  C8. A registered handle with usage 0 (both quotas are 2048) and a provider that
  returns memory for the first request: allocating 1280 bytes succeeds and the usage is
  1280; allocating 1024 bytes next is rejected, whatever the provider would do, and the
  usage stays 1280; releasing the 1280-byte block then brings the usage back to 0.
\<close>

theorem scenario_1280_1024_release:
  assumes "registered h st"
    and "used_of h st = 0"
    and "fst (M 1280 (heap st)) \<noteq> NULL"
    and "pvPortMallocWithQuota M 1280 h st = (p1, st1)"
    and "pvPortMallocWithQuota M' 1024 h st1 = (p2, st2)"
    and "vPortFreeWithTracking F p1 1280 h st2 = st3"
  shows "quota_of h st = 2048
       \<and> p1 \<noteq> NULL \<and> used_of h st1 = 1280
       \<and> p2 = NULL \<and> used_of h st2 = 1280
       \<and> used_of h st3 = 0"
proof -
  have q: "quota_of h st = 2048"
    using assms(1)
    by (auto simp: entry_defs SENSOR_TASK_QUOTA_def COMM_TASK_QUOTA_def)
  have st1: "st1 = snd (pvPortMallocWithQuota M 1280 h st)"
    and p1: "p1 = fst (pvPortMallocWithQuota M 1280 h st)"
    using assms(4) by simp_all
  have st2: "st2 = snd (pvPortMallocWithQuota M' 1024 h st1)"
    and p2: "p2 = fst (pvPortMallocWithQuota M' 1024 h st1)"
    using assms(5) by simp_all
  show ?thesis
  proof (cases "h = sensorTaskHandle st")
    case True
    with assms(2) have u: "sensorMemUsage st = 0"
      by (simp add: used_of_def)
    have a: "p1 \<noteq> NULL" and b: "sensorMemUsage st1 = 1280"
      and hs1: "sensorTaskHandle st1 = sensorTaskHandle st"
      using True u assms(3)
      by (simp_all add: p1 st1 malloc_result malloc_usage SENSOR_TASK_QUOTA_def)
    have c: "p2 = NULL" and d: "sensorMemUsage st2 = 1280"
      and hs2: "sensorTaskHandle st2 = sensorTaskHandle st"
      using True b hs1
      by (simp_all add: p2 st2 malloc_result malloc_usage SENSOR_TASK_QUOTA_def)
    have e: "sensorMemUsage st3 = 0" and hs3: "sensorTaskHandle st3 = sensorTaskHandle st"
      using True a d hs2 assms(6) [symmetric]
      by (simp_all add: free_usage)
    from True q a b c d e hs1 hs2 hs3 show ?thesis
      by (simp add: used_of_def)
  next
    case False
    with assms(1) have comm: "h = commTaskHandle st"
      by (simp add: registered_def)
    with False assms(2) have u: "commMemUsage st = 0"
      by (simp add: used_of_def)
    have a: "p1 \<noteq> NULL" and b: "commMemUsage st1 = 1280"
      and hs1: "sensorTaskHandle st1 = sensorTaskHandle st"
      and hc1: "commTaskHandle st1 = commTaskHandle st"
      using False comm u assms(3)
      by (simp_all add: p1 st1 malloc_result malloc_usage COMM_TASK_QUOTA_def)
    have c: "p2 = NULL" and d: "commMemUsage st2 = 1280"
      and hs2: "sensorTaskHandle st2 = sensorTaskHandle st"
      and hc2: "commTaskHandle st2 = commTaskHandle st"
      using False comm b hs1 hc1
      by (simp_all add: p2 st2 malloc_result malloc_usage COMM_TASK_QUOTA_def)
    have e: "commMemUsage st3 = 0"
      and hs3: "sensorTaskHandle st3 = sensorTaskHandle st"
      and hc3: "commTaskHandle st3 = commTaskHandle st"
      using False comm a d hs2 hc2 assms(6) [symmetric]
      by (simp_all add: free_usage)
    from False comm q a b c d e hs1 hs2 hs3 hc1 hc2 hc3 show ?thesis
      by (simp add: used_of_def)
  qed
qed

theorem scenario_witness:
  "registered 1 started_node \<and> used_of 1 started_node = 0
   \<and> fst (counting_malloc 1280 (heap started_node)) \<noteq> NULL
   \<and> fst (pvPortMallocWithQuota counting_malloc 1280 1 started_node) \<noteq> NULL
   \<and> used_of 1 (snd (pvPortMallocWithQuota counting_malloc 1280 1 started_node)) = 1280
   \<and> fst (pvPortMallocWithQuota counting_malloc 1024 1
            (snd (pvPortMallocWithQuota counting_malloc 1280 1 started_node))) = NULL
   \<and> used_of 1
        (vPortFreeWithTracking counting_free
           (fst (pvPortMallocWithQuota counting_malloc 1280 1 started_node)) 1280 1
           (snd (pvPortMallocWithQuota counting_malloc 1024 1
                  (snd (pvPortMallocWithQuota counting_malloc 1280 1 started_node))))) = 0"
proof -
  have r: "registered 1 started_node"
    by (simp add: registered_def started_node_def)
  have u: "used_of 1 started_node = 0"
    by (simp add: used_of_def started_node_def)
  have m: "fst (counting_malloc 1280 (heap started_node)) \<noteq> NULL"
    by (simp add: counting_malloc_def started_node_def NULL_def)
  from scenario_1280_1024_release
         [of 1 started_node counting_malloc _ _ counting_malloc _ _ counting_free,
          OF r u m surjective_pairing surjective_pairing refl]
  show ?thesis by (simp add: r u m)
qed

section \<open>Sequences of calls within the caller contract\<close>

lemmas demo_eval = demo_calls_def started_node_def alloc_defs free_defs
  counting_malloc_def counting_free_def SENSOR_TASK_QUOTA_def COMM_TASK_QUOTA_def NULL_def

lemma charged_remove1:
  "(p, sz, h) \<in> set held \<Longrightarrow>
   charged P (remove1 (p, sz, h) held) = charged P held - (if P h then sz else 0)"
proof (induction held)
  case Nil
  then show ?case by simp
next
  case (Cons a held)
  obtain p' sz' h' where a: "a = (p', sz', h')"
    by (cases a) auto
  show ?case
  proof (cases "a = (p, sz, h)")
    case True
    then show ?thesis by simp
  next
    case False
    with Cons.prems have "(p, sz, h) \<in> set held"
      by simp
    from Cons.IH [OF this] False a show ?thesis
      by simp
  qed
qed

lemma charged_bytes_le_live: "charged_bytes P held \<le> live_bytes held"
  by (induction held) auto

lemma member_le_charged_bytes:
  "(p, sz, h) \<in> set held \<Longrightarrow> P h \<Longrightarrow> unat sz \<le> charged_bytes P held"
  by (induction held) auto

lemma unat_charged:
  "live_bytes held < 2 ^ 32 \<Longrightarrow> unat (charged P held) = charged_bytes P held"
proof (induction held)
  case Nil
  then show ?case by simp
next
  case (Cons a held)
  obtain p sz h where a: "a = (p, sz, h)"
    by (cases a) auto
  from Cons.prems a have small: "unat sz + live_bytes held < 2 ^ 32"
    by simp
  then have ih: "unat (charged P held) = charged_bytes P held"
    using Cons.IH by simp
  have "unat sz + unat (charged P held) < 2 ^ 32"
    using small charged_bytes_le_live [of P held] ih by simp
  then have "unat (sz + charged P held) = unat sz + unat (charged P held)"
    using unat_add_lem [of sz "charged P held"] by simp
  with ih a show ?case by simp
qed

lemma consistent_allocate:
  assumes "consistent (st, held)"
  shows "consistent
           (snd (pvPortMallocWithQuota M sz h st),
            if fst (pvPortMallocWithQuota M sz h st) \<noteq> NULL then (fst (pvPortMallocWithQuota M sz h st), sz, h) # held
            else held)"
  using assms
  by (simp add: consistent_def malloc_usage malloc_result)

lemma consistent_release:
  assumes "consistent (st, held)" and "(p, sz, h) \<in> set held"
  shows "consistent (vPortFreeWithTracking F p sz h st, remove1 (p, sz, h) held)"
proof -
  from assms have p: "p \<noteq> NULL"
    by (force simp: consistent_def)
  have sub: "fst ` set (remove1 (p, sz, h) held) \<subseteq> fst ` set held"
    using set_remove1_subset [of "(p, sz, h)" held] by blast
  with assms(1) have nn: "NULL \<notin> fst ` set (remove1 (p, sz, h) held)"
    by (auto simp: consistent_def)
  from assms p nn show ?thesis
    by (simp add: consistent_def free_usage charged_remove1)
qed

lemma consistent_perform:
  assumes "consistent c" and "perform M F x c = Some c'"
  shows "consistent c'"
proof -
  obtain st held where c: "c = (st, held)"
    by (cases c) auto
  show ?thesis
  proof (cases x)
    case (Allocate sz h)
    with assms(2) c consistent_allocate [OF assms(1) [unfolded c], of M sz h]
    show ?thesis
      by (auto split: prod.splits)
  next
    case (Release p sz h)
    with assms(2) c have m: "(p, sz, h) \<in> set held"
      and c': "c' = (vPortFreeWithTracking F p sz h st, remove1 (p, sz, h) held)"
      by (auto split: if_splits)
    from consistent_release [OF assms(1) [unfolded c] m, of F] c' show ?thesis
      by simp
  qed
qed

lemma consistent_run:
  "consistent c \<Longrightarrow> run M F cs c = Some c' \<Longrightarrow> consistent c'"
proof (induction cs arbitrary: c)
  case Nil
  then show ?case by simp
next
  case (Cons x xs)
  from Cons.prems(2) obtain c1 where s: "perform M F x c = Some c1"
    and r: "run M F xs c1 = Some c'"
    by (auto split: option.splits)
  from Cons.IH [OF consistent_perform [OF Cons.prems(1) s] r] show ?case .
qed

lemma within_quota_allocate:
  assumes "within_quota st"
  shows "within_quota (snd (pvPortMallocWithQuota M sz h st))"
  using assms by (simp add: within_quota_def malloc_usage)

lemma within_quota_release:
  assumes "within_quota st" and "consistent (st, held)"
    and "live_bytes held < 2 ^ 32" and "(p, sz, h) \<in> set held"
  shows "within_quota (vPortFreeWithTracking F p sz h st)"
proof -
  have shrink: "u - sz \<le> q"
    if u: "u = charged P held" and P: "P h" and q: "u \<le> q" for u q :: size_t and P
  proof -
    have "unat sz \<le> unat u"
      using member_le_charged_bytes [OF assms(4), of P, OF P]
        unat_charged [OF assms(3), of P] u by simp
    then have "sz \<le> u"
      by (simp add: word_le_nat_alt)
    then have "unat (u - sz) = unat u - unat sz"
      by (rule unat_sub)
    then have "u - sz \<le> u"
      by (simp add: word_le_nat_alt)
    with q show ?thesis by simp
  qed
  from assms(2) have s: "sensorMemUsage st = charged (\<lambda>h. h = sensorTaskHandle st) held"
    and c: "commMemUsage st =
              charged (\<lambda>h. h \<noteq> sensorTaskHandle st \<and> h = commTaskHandle st) held"
    by (simp_all add: consistent_def)
  from assms(1) have sq: "sensorMemUsage st \<le> SENSOR_TASK_QUOTA"
    and cq: "commMemUsage st \<le> COMM_TASK_QUOTA"
    by (simp_all add: within_quota_def)
  have "sensorMemUsage (vPortFreeWithTracking F p sz h st) \<le> SENSOR_TASK_QUOTA"
    using shrink [OF s _ sq] sq by (auto simp: free_usage)
  moreover have "commMemUsage (vPortFreeWithTracking F p sz h st) \<le> COMM_TASK_QUOTA"
    using shrink [OF c _ cq] cq by (auto simp: free_usage)
  ultimately show ?thesis
    by (simp add: within_quota_def)
qed

lemma within_quota_perform:
  assumes "within_quota (fst c)" and "consistent c" and "live_bytes (snd c) < 2 ^ 32"
    and "perform M F x c = Some c'"
  shows "within_quota (fst c')"
proof -
  obtain st held where c: "c = (st, held)"
    by (cases c) auto
  show ?thesis
  proof (cases x)
    case (Allocate sz h)
    with assms(4) c have "fst c' = snd (pvPortMallocWithQuota M sz h st)"
      by (auto split: prod.splits)
    with within_quota_allocate [of st M sz h] assms(1) c show ?thesis
      by simp
  next
    case (Release p sz h)
    with assms(4) c have m: "(p, sz, h) \<in> set held"
      and c': "fst c' = vPortFreeWithTracking F p sz h st"
      by (auto split: if_splits)
    from within_quota_release [of st held p sz h F] assms(1-3) c m c' show ?thesis
      by simp
  qed
qed

lemma within_quota_prefix:
  assumes "within_quota (fst c)" and "consistent c" and "live_bytes (snd c) < 2 ^ 32"
    and "run M F cs c = Some final" and "within_address_space M F cs c"
  shows "\<exists>c'. run M F (take k cs) c = Some c' \<and> within_quota (fst c')"
  using assms
proof (induction cs arbitrary: c k)
  case Nil
  then show ?case by simp
next
  case (Cons x xs)
  show ?case
  proof (cases k)
    case 0
    with Cons.prems(1) show ?thesis by simp
  next
    case (Suc j)
    from Cons.prems(4) obtain c1 where s: "perform M F x c = Some c1"
      and r: "run M F xs c1 = Some final"
      by (auto split: option.splits)
    from Cons.prems(5) s have l: "live_bytes (snd c1) < 2 ^ 32"
      and a: "within_address_space M F xs c1"
      by simp_all
    have q: "within_quota (fst c1)"
      by (rule within_quota_perform [OF Cons.prems(1-3) s])
    have i: "consistent c1"
      by (rule consistent_perform [OF Cons.prems(2) s])
    from Cons.IH [OF q i l r a, of j] Suc s show ?thesis
      by simp
  qed
qed

text \<open>
  C2. Invariant. Start with both usages 0 and nothing held, and take any sequence of
  calls within the caller contract (every release names the pointer, size and handle
  of a successful allocation not yet released), served by a provider whose outstanding
  blocks fit one 32-bit address space. Then after every call, that is after every
  prefix of the sequence, \<open>0 \<le> used \<le> quota\<close> holds for both units.
\<close>

theorem usage_within_quota_after_every_call:
  assumes "sensorMemUsage st0 = 0" and "commMemUsage st0 = 0"
    and "run M F cs (st0, []) = Some final"
    and "within_address_space M F cs (st0, [])"
  shows "\<exists>st held. run M F (take k cs) (st0, []) = Some (st, held)
           \<and> 0 \<le> sensorMemUsage st \<and> sensorMemUsage st \<le> SENSOR_TASK_QUOTA
           \<and> 0 \<le> commMemUsage st \<and> commMemUsage st \<le> COMM_TASK_QUOTA"
proof -
  have q: "within_quota (fst (st0, []))"
    using assms(1,2)
    by (simp add: within_quota_def SENSOR_TASK_QUOTA_def COMM_TASK_QUOTA_def)
  have i: "consistent (st0, [])"
    using assms(1,2) by (simp add: consistent_def)
  have l: "live_bytes (snd (st0, [])) < 2 ^ 32"
    by simp
  from within_quota_prefix [OF q i l assms(3,4), of k]
  obtain c' where "run M F (take k cs) (st0, []) = Some c'" and "within_quota (fst c')"
    by blast
  then show ?thesis
    by (cases c') (simp add: within_quota_def)
qed

theorem usage_within_quota_witness:
  "sensorMemUsage started_node = 0 \<and> commMemUsage started_node = 0
   \<and> run counting_malloc counting_free demo_calls (started_node, []) \<noteq> None
   \<and> within_address_space counting_malloc counting_free demo_calls (started_node, [])
   \<and> (\<exists>st held.
         run counting_malloc counting_free (take 5 demo_calls) (started_node, [])
           = Some (st, held)
         \<and> 0 \<le> sensorMemUsage st \<and> sensorMemUsage st \<le> SENSOR_TASK_QUOTA
         \<and> 0 \<le> commMemUsage st \<and> commMemUsage st \<le> COMM_TASK_QUOTA)"
proof -
  have s: "sensorMemUsage started_node = 0" and c: "commMemUsage started_node = 0"
    by (simp_all add: started_node_def)
  have r: "run counting_malloc counting_free demo_calls (started_node, []) \<noteq> None"
    by (simp add: demo_eval)
  then obtain final
    where f: "run counting_malloc counting_free demo_calls (started_node, []) = Some final"
    by blast
  have a: "within_address_space counting_malloc counting_free demo_calls (started_node, [])"
    by (simp add: demo_eval)
  note usage_within_quota_after_every_call [OF s c f a, of 5]
  with s c r a show ?thesis
    by blast
qed

text \<open>
  C3. Conservation. Start with both usages 0 and nothing held. After any sequence of
  calls within the caller contract that leaves nothing held (every successful
  allocation has been released once, with its size and handle), both usages are 0.
\<close>

theorem usage_zero_after_all_released:
  assumes "sensorMemUsage st0 = 0" and "commMemUsage st0 = 0"
    and "run M F cs (st0, []) = Some (st, [])"
  shows "sensorMemUsage st = 0 \<and> commMemUsage st = 0"
proof -
  have "consistent (st0, [])"
    using assms(1,2) by (simp add: consistent_def)
  from consistent_run [OF this assms(3)] show ?thesis
    by (simp add: consistent_def)
qed

theorem usage_zero_after_all_released_witness:
  "sensorMemUsage started_node = 0 \<and> commMemUsage started_node = 0
   \<and> snd (the (run counting_malloc counting_free demo_calls (started_node, []))) = []
   \<and> sensorMemUsage
         (fst (the (run counting_malloc counting_free demo_calls (started_node, [])))) = 0
   \<and> commMemUsage
         (fst (the (run counting_malloc counting_free demo_calls (started_node, [])))) = 0"
proof -
  have s: "sensorMemUsage started_node = 0" and c: "commMemUsage started_node = 0"
    by (simp_all add: started_node_def)
  have n: "run counting_malloc counting_free demo_calls (started_node, []) \<noteq> None"
    and e: "snd (the (run counting_malloc counting_free demo_calls (started_node, []))) = []"
    by (simp_all add: demo_eval)
  from n obtain st held
    where f: "run counting_malloc counting_free demo_calls (started_node, [])
                = Some (st, held)"
    by fastforce
  with e have h: "held = []"
    by simp
  note usage_zero_after_all_released [OF s c f [unfolded h]]
  with s c e f show ?thesis
    by simp
qed

end
